theory Spec2Isabelle
  imports Main "HOL-Library.Sublist"
begin

section \<open>Text and the regular-expression engine\<close>

text \<open>
  \<^verbatim>\<open>request.data.decode('utf-8')\<close> is a Python \<^verbatim>\<open>str\<close>: a sequence of Unicode code
  points. A text is therefore a list of code points, not of bytes. \<open>codepoints\<close> turns an
  ASCII literal of this theory into such a text.
\<close>

type_synonym str = "nat list"

definition codepoints :: "string \<Rightarrow> str" where
  "codepoints s = map of_char s"

text \<open>
  The two patterns of \<^verbatim>\<open>validate_request\<close> use literals, a negated one-character set,
  alternation, concatenation and the greedy repetition \<^verbatim>\<open>+\<close>. (The group of the first
  pattern only captures; \<^verbatim>\<open>search\<close> is used for its truth value.)
\<close>

datatype regex =
    Eps
  | Lit nat
  | Not_lit nat
  | Cat regex regex
  | Branch regex regex
  | Max_repeat1 regex

record pattern =
  prog :: regex
  ignorecase :: bool

subsection \<open>Comparing one character under \<^verbatim>\<open>re.IGNORECASE\<close>\<close>

text \<open>
  For a \<^verbatim>\<open>str\<close> pattern the engine ignores case as follows. A literal \<open>av\<close> that has no
  case is compared exactly. Otherwise, with \<open>lo\<close> the lower case of \<open>av\<close>, a character
  \<open>ch\<close> of the text matches when the lower case of \<open>ch\<close> is \<open>lo\<close> or one of the
  code points the engine's table of extra equivalences lists for \<open>lo\<close>.

  The literals of both patterns are ASCII, so the model needs of Unicode lower-casing only
  which code points lower-case to an ASCII letter (the letter, its ASCII capital, U+0130
  for \<open>i\<close>, U+212A for \<open>k\<close>), and of the table of extra equivalences only its two
  ASCII keys (\<open>i\<close> with U+0131, \<open>s\<close> with U+017F). Every other code point is its own
  lower case in this model; none of them lower-cases to ASCII, U+0131 or U+017F.
\<close>

definition iscased :: "nat \<Rightarrow> bool" where
  "iscased av \<longleftrightarrow> (65 \<le> av \<and> av \<le> 90) \<or> (97 \<le> av \<and> av \<le> 122)"

definition sre_lower_unicode :: "nat \<Rightarrow> nat" where
  "sre_lower_unicode ch =
     (if 65 \<le> ch \<and> ch \<le> 90 then ch + 32
      else if ch = 0x130 then 0x69
      else if ch = 0x212A then 0x6B
      else ch)"

definition ignorecase_fixes :: "nat \<Rightarrow> nat list" where
  "ignorecase_fixes lo =
     (if lo = 0x69 then [0x131] else if lo = 0x73 then [0x17F] else [])"

definition literal_matches :: "bool \<Rightarrow> nat \<Rightarrow> nat \<Rightarrow> bool" where
  "literal_matches ic av ch =
     (if ic \<and> iscased av
      then (let lo = sre_lower_unicode av
            in sre_lower_unicode ch \<in> set (lo # ignorecase_fixes lo))
      else ch = av)"

subsection \<open>Matching and searching\<close>

text \<open>
  \<open>repeat f n s\<close> is the greedy \<^verbatim>\<open>+\<close>: one match of the body, then as many more as
  possible before giving characters back. An iteration that consumes nothing is not
  repeated (the engine has the same guard); \<open>n\<close> bounds the number of further
  iterations and is the length of the text.
\<close>

fun repeat :: "(str \<Rightarrow> str list) \<Rightarrow> nat \<Rightarrow> str \<Rightarrow> str list" where
  "repeat f 0 s = f s"
| "repeat f (Suc n) s =
     concat (map (\<lambda>t. (if length t < length s then repeat f n t else []) @ [t]) (f s))"

text \<open>
  \<open>match_at ic r s\<close> lists, in the backtracking order of the engine, what is left of \<open>s\<close>
  after each way of matching \<open>r\<close> at its start; it is empty when \<open>r\<close> does not match
  there.
\<close>

fun match_at :: "bool \<Rightarrow> regex \<Rightarrow> str \<Rightarrow> str list" where
  "match_at ic Eps s = [s]"
| "match_at ic (Lit av) s =
     (case s of [] \<Rightarrow> [] | ch # rest \<Rightarrow> if literal_matches ic av ch then [rest] else [])"
| "match_at ic (Not_lit av) s =
     (case s of [] \<Rightarrow> [] | ch # rest \<Rightarrow> if literal_matches ic av ch then [] else [rest])"
| "match_at ic (Cat a b) s = concat (map (match_at ic b) (match_at ic a s))"
| "match_at ic (Branch a b) s = match_at ic a s @ match_at ic b s"
| "match_at ic (Max_repeat1 a) s = repeat (match_at ic a) (length s) s"

text \<open>\<^verbatim>\<open>Pattern.search\<close>: try every start position from the left; true when a match exists.\<close>

fun search :: "pattern \<Rightarrow> str \<Rightarrow> bool" where
  "search p [] = (match_at (ignorecase p) (prog p) [] \<noteq> [])"
| "search p (ch # rest) =
     (match_at (ignorecase p) (prog p) (ch # rest) \<noteq> [] \<or> search p rest)"

text \<open>A run of literals, as the parser reads \<^verbatim>\<open>SELECT\<close>.\<close>

fun lits :: "string \<Rightarrow> regex" where
  "lits [] = Eps"
| "lits [c] = Lit (of_char c)"
| "lits (c # cs) = Cat (Lit (of_char c)) (lits cs)"

fun branches :: "regex \<Rightarrow> regex list \<Rightarrow> regex" where
  "branches r [] = r"
| "branches r (r' # rs) = Branch r (branches r' rs)"

section \<open>The application\<close>

datatype error = ValueError string | UnicodeDecodeError

datatype payload = Json "(string \<times> string) list" | Error_page | No_content

record response =
  status_code :: nat
  payload :: payload

text \<open>
  A request: its method, its path, whether the framework parses its body as a form (the
  content type is \<^verbatim>\<open>application/x-www-form-urlencoded\<close> or \<^verbatim>\<open>multipart/form-data\<close>),
  and the body that was sent, decoded as UTF-8: \<open>None\<close> where its bytes are not UTF-8.
\<close>

record request =
  req_method :: string
  req_path :: string
  parsed_as_form :: bool
  body_decoded :: "str option"

text \<open>
  \<^verbatim>\<open>request.data.decode('utf-8')\<close>, which is all the validator reads of a request.
  \<^verbatim>\<open>request.data\<close> is the body that was sent, except that it is empty when the
  framework parses the body as a form: the form parser has consumed the body then.
  \<open>None\<close> stands for the \<^verbatim>\<open>UnicodeDecodeError\<close> of \<^verbatim>\<open>decode\<close>.
\<close>

definition request_data :: "request \<Rightarrow> str option" where
  "request_data req = (if parsed_as_form req then Some [] else body_decoded req)"

type_synonym hook = "request \<Rightarrow> error + response option"

record rule =
  rule_path :: string
  rule_methods :: "string list"
  endpoint :: string
  view_func :: "request \<Rightarrow> response"

record flask =
  before_request_funcs :: "hook list"
  url_map :: "rule list"

record SecurityMiddleware =
  mw_app :: flask

subsection \<open>\<^verbatim>\<open>SecurityMiddleware.validate_request\<close>\<close>

text \<open>\<^verbatim>\<open>(SELECT|INSERT|UPDATE|DELETE|DROP|;|--|#)\<close>, compiled with \<^verbatim>\<open>re.IGNORECASE\<close>.\<close>

definition sql_injection_patterns :: pattern where
  "sql_injection_patterns =
     \<lparr>prog = branches (lits ''SELECT'')
               [lits ''INSERT'', lits ''UPDATE'', lits ''DELETE'', lits ''DROP'',
                lits '';'', lits ''--'', lits ''#''],
      ignorecase = True\<rparr>"

text \<open>\<^verbatim>\<open><[^>]+>\<close>, with 60 the code point of \<open><\<close> and 62 that of \<open>>\<close>.\<close>

definition xss_patterns :: pattern where
  "xss_patterns =
     \<lparr>prog = Cat (Lit 60) (Cat (Max_repeat1 (Not_lit 62)) (Lit 62)),
      ignorecase = False\<rparr>"

definition validate_request :: "SecurityMiddleware \<Rightarrow> request \<Rightarrow> error + response option" where
  "validate_request self request =
     (case request_data request of
        None \<Rightarrow> Inl UnicodeDecodeError
      | Some body \<Rightarrow>
          if search sql_injection_patterns body
          then Inl (ValueError ''Potential SQL injection detected.'')
          else if search xss_patterns body
          then Inl (ValueError ''Potential XSS attack detected.'')
          else Inr None)"

subsection \<open>Wiring: the module's \<^verbatim>\<open>app\<close>, \<^verbatim>\<open>create_app\<close>, the entry point\<close>

definition before_request :: "flask \<Rightarrow> hook \<Rightarrow> flask" where
  "before_request a f = a\<lparr>before_request_funcs := before_request_funcs a @ [f]\<rparr>"

definition route :: "flask \<Rightarrow> string \<Rightarrow> string list \<Rightarrow> string \<Rightarrow> (request \<Rightarrow> response) \<Rightarrow> flask" where
  "route a p ms name f =
     a\<lparr>url_map := url_map a @
          [\<lparr>rule_path = p, rule_methods = ms, endpoint = name, view_func = f\<rparr>]\<rparr>"

definition Flask :: flask where
  "Flask = \<lparr>before_request_funcs = [], url_map = []\<rparr>"

text \<open>
  \<^verbatim>\<open>__init__\<close> keeps the application and registers the bound method on it. The
  application is a mutable object in the source; here the updated one is returned.
\<close>

definition SecurityMiddleware_init :: "flask \<Rightarrow> SecurityMiddleware \<times> flask" where
  "SecurityMiddleware_init a =
     (let self = \<lparr>mw_app = a\<rparr>
      in (self, before_request a (validate_request self)))"

definition submit_data :: "request \<Rightarrow> response" where
  "submit_data request =
     \<lparr>status_code = 200, payload = Json [(''message'', ''Data submitted successfully!'')]\<rparr>"

text \<open>The module-level application, once the module body has run.\<close>

definition app :: flask where
  "app = route Flask ''/submit'' [''POST''] ''submit_data'' submit_data"

definition create_app :: "flask \<Rightarrow> flask" where
  "create_app a = snd (SecurityMiddleware_init a)"

subsection \<open>Serving one request\<close>

text \<open>
  The framework runs the hooks in the order of their registration, before it looks at the
  result of routing. A hook that raises ends the request; one that returns a response
  replaces the view.
\<close>

fun preprocess_request :: "hook list \<Rightarrow> request \<Rightarrow> error + response option" where
  "preprocess_request [] req = Inr None"
| "preprocess_request (f # fs) req =
     (case f req of
        Inl e \<Rightarrow> Inl e
      | Inr (Some rv) \<Rightarrow> Inr (Some rv)
      | Inr None \<Rightarrow> preprocess_request fs req)"

record outcome =
  response :: response
  executed :: "string list"

definition http_error :: "nat \<Rightarrow> outcome" where
  "http_error code = \<lparr>response = \<lparr>status_code = code, payload = Error_page\<rparr>, executed = []\<rparr>"

text \<open>
  Routing and the call of the view: an unknown path is 404, a known path with a method
  the rule does not list is 405, and \<^verbatim>\<open>OPTIONS\<close> is answered by the framework itself.
  \<open>executed\<close> records the view functions that ran.
\<close>

definition dispatch_request :: "flask \<Rightarrow> request \<Rightarrow> outcome" where
  "dispatch_request a req =
     (case filter (\<lambda>r. rule_path r = req_path req) (url_map a) of
        [] \<Rightarrow> http_error 404
      | r # rs \<Rightarrow>
          (case filter (\<lambda>r. req_method req \<in> set (rule_methods r)) (r # rs) of
             r' # rs' \<Rightarrow> \<lparr>response = view_func r' req, executed = [endpoint r']\<rparr>
           | [] \<Rightarrow>
               if req_method req = ''OPTIONS''
               then \<lparr>response = \<lparr>status_code = 200, payload = No_content\<rparr>, executed = []\<rparr>
               else http_error 405))"

text \<open>
  No error handler is registered, so an exception of a hook becomes the framework's
  internal server error.
\<close>

definition wsgi_app :: "flask \<Rightarrow> request \<Rightarrow> outcome" where
  "wsgi_app a req =
     (case preprocess_request (before_request_funcs a) req of
        Inl e \<Rightarrow> http_error 500
      | Inr (Some rv) \<Rightarrow> \<lparr>response = rv, executed = []\<rparr>
      | Inr None \<Rightarrow> dispatch_request a req)"

text \<open>
  The tests build their client from \<^verbatim>\<open>create_app()\<close>. The entry point of the module,
  \<^verbatim>\<open>app.run(debug=True)\<close> under \<^verbatim>\<open>__main__\<close>, serves the module-level application as it
  is: \<^verbatim>\<open>create_app\<close> is not called on that path.
\<close>

definition test_client :: "request \<Rightarrow> outcome" where
  "test_client = wsgi_app (create_app app)"

definition main :: "request \<Rightarrow> outcome" where
  "main = wsgi_app app"

text \<open>
  A POST of a body to \<^verbatim>\<open>/submit\<close>, sent with a form content type (\<open>form\<close>) or with
  another one, such as the \<^verbatim>\<open>application/json\<close> of the tests.
\<close>

definition post_submit :: "bool \<Rightarrow> str \<Rightarrow> request" where
  "post_submit form body =
     \<lparr>req_method = ''POST'', req_path = ''/submit'', parsed_as_form = form,
      body_decoded = Some body\<rparr>"

section \<open>The properties, in the words of the specification\<close>

text \<open>
  The two rejection kinds are the two messages the validator raises with.
\<close>

definition sql_injection_suspected :: error where
  "sql_injection_suspected = ValueError ''Potential SQL injection detected.''"

definition xss_suspected :: error where
  "xss_suspected = ValueError ''Potential XSS attack detected.''"

definition success :: response where
  "success = \<lparr>status_code = 200, payload = Json [(''message'', ''Data submitted successfully!'')]\<rparr>"

definition sql_tokens :: "string list" where
  "sql_tokens = [''SELECT'', ''INSERT'', ''UPDATE'', ''DELETE'', ''DROP'', '';'', ''--'', ''#'']"

text \<open>
  Comparing without regard to letter case: both sides are brought to one case first.
  The text is Unicode, and the case variants of an ASCII letter are its capital and its
  small form and, for three letters, one or two more code points: for \<open>I\<close>, U+0130
  (dotted capital I, whose small form is \<open>i\<close>) and U+0131 (dotless small i, whose
  capital is \<open>I\<close>); for \<open>S\<close>, U+017F (long s, whose capital is \<open>S\<close>); for \<open>K\<close>,
  U+212A (Kelvin sign, whose small form is \<open>k\<close>). No other code point has an ASCII
  letter as its capital or small form.
\<close>

definition fold_case :: "nat \<Rightarrow> nat" where
  "fold_case c =
     (if 65 \<le> c \<and> c \<le> 90 then c + 32
      else if c = 0x130 \<or> c = 0x131 then 0x69
      else if c = 0x17F then 0x73
      else if c = 0x212A then 0x6B
      else c)"

text \<open>The body contains the token: some substring of it equals the token up to case.\<close>

definition contains_ci :: "string \<Rightarrow> str \<Rightarrow> bool" where
  "contains_ci tok body \<longleftrightarrow>
     (\<exists>pre mid suf. body = pre @ mid @ suf \<and> map fold_case mid = map fold_case (codepoints tok))"

text \<open>
  The body contains a substring shaped like a tag: \<open><\<close> (60), then one or more
  characters other than \<open>>\<close> (62), then \<open>>\<close>.
\<close>

definition has_tag :: "str \<Rightarrow> bool" where
  "has_tag body \<longleftrightarrow>
     (\<exists>pre mid suf. body = pre @ [60] @ mid @ [62] @ suf \<and> mid \<noteq> [] \<and> 62 \<notin> set mid)"

text \<open>
  Every \<open><\<close> of the body is either the first half of an empty pair \<open><>\<close> or has no
  \<open>>\<close> anywhere after it.
\<close>

fun brackets_harmless :: "str \<Rightarrow> bool" where
  "brackets_harmless [] = True"
| "brackets_harmless (c # r) =
     ((c = 60 \<longrightarrow> take 1 r = [62] \<or> 62 \<notin> set r) \<and> brackets_harmless r)"

section \<open>What the engine computes\<close>

lemma literal_matches_ignorecase:
  "av < 128 \<Longrightarrow> literal_matches True av ch \<longleftrightarrow> fold_case ch = fold_case av"
  unfolding literal_matches_def iscased_def sre_lower_unicode_def ignorecase_fixes_def
    fold_case_def Let_def
  by (auto split: if_splits)

lemma literal_matches_exact: "literal_matches False av ch \<longleftrightarrow> ch = av"
  by (simp add: literal_matches_def)

lemma match_at_lits:
  "\<forall>c\<in>set tok. (of_char c :: nat) < 128 \<Longrightarrow>
   match_at True (lits tok) s =
     (if prefix (map fold_case (codepoints tok)) (map fold_case s)
      then [drop (length tok) s] else [])"
proof (induction tok arbitrary: s rule: lits.induct)
  case 1
  then show ?case by (simp add: codepoints_def)
next
  case (2 c)
  then show ?case
    by (cases s) (auto simp: codepoints_def literal_matches_ignorecase)
next
  case (3 c d cs)
  show ?case
  proof (cases s)
    case Nil
    then show ?thesis by (simp add: codepoints_def)
  next
    case (Cons x xs)
    have "match_at True (lits (d # cs)) xs =
      (if prefix (map fold_case (codepoints (d # cs))) (map fold_case xs)
       then [drop (length (d # cs)) xs] else [])"
      using 3 by simp
    with 3(2) Cons show ?thesis
      by (auto simp: codepoints_def literal_matches_ignorecase)
  qed
qed

lemma search_iff:
  "search p s \<longleftrightarrow> (\<exists>pre t. s = pre @ t \<and> match_at (ignorecase p) (prog p) t \<noteq> [])"
proof (induction s)
  case Nil
  then show ?case by simp
next
  case (Cons c r)
  show ?case
  proof
    assume "search p (c # r)"
    then consider "match_at (ignorecase p) (prog p) (c # r) \<noteq> []" | "search p r" by auto
    then show "\<exists>pre t. c # r = pre @ t \<and> match_at (ignorecase p) (prog p) t \<noteq> []"
    proof cases
      case 1
      then have "c # r = [] @ (c # r) \<and> match_at (ignorecase p) (prog p) (c # r) \<noteq> []" by simp
      then show ?thesis by blast
    next
      case 2
      then obtain pre t where "r = pre @ t" "match_at (ignorecase p) (prog p) t \<noteq> []"
        using Cons.IH by blast
      then have "c # r = (c # pre) @ t \<and> match_at (ignorecase p) (prog p) t \<noteq> []" by simp
      then show ?thesis by blast
    qed
  next
    assume "\<exists>pre t. c # r = pre @ t \<and> match_at (ignorecase p) (prog p) t \<noteq> []"
    then obtain pre t where *: "c # r = pre @ t" "match_at (ignorecase p) (prog p) t \<noteq> []"
      by blast
    show "search p (c # r)"
    proof (cases pre)
      case Nil
      with * have "t = c # r" by simp
      with * show ?thesis by simp
    next
      case (Cons c' pre')
      with * have "r = pre' @ t" by simp
      with * Cons.IH show ?thesis by auto
    qed
  qed
qed


lemma match_at_branches:
  "match_at ic (branches r rs) s \<noteq> [] \<longleftrightarrow> (\<exists>r'\<in>set (r # rs). match_at ic r' s \<noteq> [])"
  by (induction rs arbitrary: r) auto

lemma sql_tokens_ascii: "tok \<in> set sql_tokens \<Longrightarrow> \<forall>c\<in>set tok. (of_char c :: nat) < 128"
  by (auto simp: sql_tokens_def)

lemma sql_match_at:
  "match_at True (prog sql_injection_patterns) t \<noteq> [] \<longleftrightarrow>
   (\<exists>tok\<in>set sql_tokens. prefix (map fold_case (codepoints tok)) (map fold_case t))"
proof -
  have "prog sql_injection_patterns = branches (lits (hd sql_tokens)) (map lits (tl sql_tokens))"
    by (simp add: sql_injection_patterns_def sql_tokens_def)
  then have "match_at True (prog sql_injection_patterns) t \<noteq> [] \<longleftrightarrow>
      (\<exists>tok\<in>set sql_tokens. match_at True (lits tok) t \<noteq> [])"
    by (simp add: match_at_branches sql_tokens_def del: lits.simps)
  also have "\<dots> \<longleftrightarrow> (\<exists>tok\<in>set sql_tokens. prefix (map fold_case (codepoints tok)) (map fold_case t))"
    using sql_tokens_ascii by (simp add: match_at_lits)
  finally show ?thesis .
qed

lemma prefix_map_iff:
  "prefix xs (map f t) \<longleftrightarrow> (\<exists>mid suf. t = mid @ suf \<and> map f mid = xs)"
  by (auto simp: prefix_def map_eq_append_conv)

lemma contains_ci_iff:
  "contains_ci tok body \<longleftrightarrow>
   (\<exists>pre t. body = pre @ t \<and> prefix (map fold_case (codepoints tok)) (map fold_case t))"
  unfolding contains_ci_def prefix_map_iff by blast

lemma search_sql_iff:
  "search sql_injection_patterns body \<longleftrightarrow> (\<exists>tok\<in>set sql_tokens. contains_ci tok body)"
proof -
  have ic: "ignorecase sql_injection_patterns = True"
    by (simp add: sql_injection_patterns_def)
  show ?thesis
    unfolding search_iff ic sql_match_at contains_ci_iff by blast
qed

lemma repeat_single_char:
  assumes f: "\<And>s. f s = (case s of [] \<Rightarrow> [] | c # r \<Rightarrow> if P c then [r] else [])"
  shows "length s \<le> n \<Longrightarrow>
         t \<in> set (repeat f n s) \<longleftrightarrow> (\<exists>mid. mid \<noteq> [] \<and> (\<forall>c\<in>set mid. P c) \<and> s = mid @ t)"
proof (induction s arbitrary: n)
  case Nil
  then show ?case by (cases n) (simp_all add: f)
next
  case (Cons c r)
  then obtain m where n: "n = Suc m" and len: "length r \<le> m"
    by (cases n) auto
  show ?case
  proof (cases "P c")
    case False
    have "\<not> (\<exists>mid. mid \<noteq> [] \<and> (\<forall>c\<in>set mid. P c) \<and> c # r = mid @ t)"
      using False by (auto simp: Cons_eq_append_conv)
    then show ?thesis using False n by (simp add: f)
  next
    case True
    have "t \<in> set (repeat f n (c # r)) \<longleftrightarrow> t \<in> set (repeat f m r) \<or> t = r"
      using True n by (auto simp: f)
    also have "\<dots> \<longleftrightarrow> (\<exists>mid. mid \<noteq> [] \<and> (\<forall>c\<in>set mid. P c) \<and> r = mid @ t) \<or> t = r"
      using Cons.IH[OF len] by simp
    also have "\<dots> \<longleftrightarrow> (\<exists>mid. mid \<noteq> [] \<and> (\<forall>c\<in>set mid. P c) \<and> c # r = mid @ t)"
    proof
      assume "(\<exists>mid. mid \<noteq> [] \<and> (\<forall>c\<in>set mid. P c) \<and> r = mid @ t) \<or> t = r"
      then show "\<exists>mid. mid \<noteq> [] \<and> (\<forall>c\<in>set mid. P c) \<and> c # r = mid @ t"
      proof
        assume "\<exists>mid. mid \<noteq> [] \<and> (\<forall>c\<in>set mid. P c) \<and> r = mid @ t"
        then obtain mid where "mid \<noteq> []" "\<forall>c\<in>set mid. P c" "r = mid @ t" by blast
        with True have "c # mid \<noteq> [] \<and> (\<forall>c\<in>set (c # mid). P c) \<and> c # r = (c # mid) @ t"
          by simp
        then show ?thesis by blast
      next
        assume "t = r"
        with True have "[c] \<noteq> [] \<and> (\<forall>c\<in>set [c]. P c) \<and> c # r = [c] @ t" by simp
        then show ?thesis by blast
      qed
    next
      assume "\<exists>mid. mid \<noteq> [] \<and> (\<forall>c\<in>set mid. P c) \<and> c # r = mid @ t"
      then obtain mid where mid: "mid \<noteq> []" "\<forall>c\<in>set mid. P c" "c # r = mid @ t" by blast
      then obtain mid' where mid': "mid = c # mid'" "r = mid' @ t"
        by (cases mid) auto
      show "(\<exists>mid. mid \<noteq> [] \<and> (\<forall>c\<in>set mid. P c) \<and> r = mid @ t) \<or> t = r"
      proof (cases "mid' = []")
        case True
        with mid' show ?thesis by simp
      next
        case False
        with mid mid' have "mid' \<noteq> [] \<and> (\<forall>c\<in>set mid'. P c) \<and> r = mid' @ t" by simp
        then show ?thesis by blast
      qed
    qed
    finally show ?thesis .
  qed
qed

lemma match_at_Lit_exact: "match_at False (Lit a) t \<noteq> [] \<longleftrightarrow> (\<exists>suf. t = a # suf)"
  by (cases t) (simp_all add: literal_matches_exact)

lemma xss_match_at:
  "match_at False (prog xss_patterns) s \<noteq> [] \<longleftrightarrow>
   (\<exists>mid suf. s = 60 # mid @ 62 # suf \<and> mid \<noteq> [] \<and> 62 \<notin> set mid)"
proof (cases s)
  case Nil
  then show ?thesis by (simp add: xss_patterns_def)
next
  case (Cons c r)
  define f where "f = match_at False (Not_lit 62)"
  have f: "f s = (case s of [] \<Rightarrow> [] | c # r \<Rightarrow> if c \<noteq> 62 then [r] else [])" for s
    by (simp add: f_def literal_matches_exact split: list.splits)
  have rep: "t \<in> set (repeat f (length r) r) \<longleftrightarrow>
             (\<exists>mid. mid \<noteq> [] \<and> (\<forall>c\<in>set mid. c \<noteq> 62) \<and> r = mid @ t)" for t
    using repeat_single_char[of f "\<lambda>c. c \<noteq> 62" r "length r" t] f by simp
  show ?thesis
  proof (cases "c = 60")
    case False
    with Cons show ?thesis by (simp add: xss_patterns_def literal_matches_exact)
  next
    case True
    have "match_at False (prog xss_patterns) s =
          concat (map (match_at False (Lit 62)) (repeat f (length r) r))"
      using Cons True by (simp add: xss_patterns_def literal_matches_exact f_def)
    then have "match_at False (prog xss_patterns) s \<noteq> [] \<longleftrightarrow>
          (\<exists>t\<in>set (repeat f (length r) r). match_at False (Lit 62) t \<noteq> [])"
      by simp
    also have "\<dots> \<longleftrightarrow>
          (\<exists>t. (\<exists>mid. mid \<noteq> [] \<and> (\<forall>c\<in>set mid. c \<noteq> 62) \<and> r = mid @ t) \<and> (\<exists>suf. t = 62 # suf))"
      unfolding match_at_Lit_exact Bex_def rep ..
    also have "\<dots> \<longleftrightarrow> (\<exists>mid suf. s = 60 # mid @ 62 # suf \<and> mid \<noteq> [] \<and> 62 \<notin> set mid)"
      using Cons True by auto
    finally show ?thesis .
  qed
qed

lemma search_xss_iff: "search xss_patterns body \<longleftrightarrow> has_tag body"
proof -
  have ic: "ignorecase xss_patterns = False"
    by (simp add: xss_patterns_def)
  have "search xss_patterns body \<longleftrightarrow>
        (\<exists>pre t. body = pre @ t \<and> (\<exists>mid suf. t = 60 # mid @ 62 # suf \<and> mid \<noteq> [] \<and> 62 \<notin> set mid))"
    unfolding search_iff ic xss_match_at ..
  also have "\<dots> \<longleftrightarrow> has_tag body"
    unfolding has_tag_def by auto
  finally show ?thesis .
qed

section \<open>The validator and the wiring\<close>

lemma kinds_distinct: "sql_injection_suspected \<noteq> xss_suspected"
  by (simp add: sql_injection_suspected_def xss_suspected_def)

lemma validate_request_cases:
  "request_data req = Some body \<Longrightarrow>
   validate_request self req =
     (if \<exists>tok\<in>set sql_tokens. contains_ci tok body then Inl sql_injection_suspected
      else if has_tag body then Inl xss_suspected
      else Inr None)"
  by (simp add: validate_request_def search_sql_iff search_xss_iff
      sql_injection_suspected_def xss_suspected_def)

lemma create_app_eq:
  "create_app a = a\<lparr>before_request_funcs := before_request_funcs a @ [validate_request \<lparr>mw_app = a\<rparr>]\<rparr>"
  by (simp add: create_app_def SecurityMiddleware_init_def before_request_def Let_def)

lemma app_eq:
  "app = \<lparr>before_request_funcs = [],
          url_map = [\<lparr>rule_path = ''/submit'', rule_methods = [''POST''],
                     endpoint = ''submit_data'', view_func = submit_data\<rparr>]\<rparr>"
  by (simp add: app_def route_def Flask_def)

lemma test_client_cases:
  "test_client req =
     (case validate_request \<lparr>mw_app = app\<rparr> req of
        Inl e \<Rightarrow> http_error 500
      | Inr None \<Rightarrow> dispatch_request (create_app app) req
      | Inr (Some rv) \<Rightarrow> \<lparr>response = rv, executed = []\<rparr>)"
proof -
  have "before_request_funcs (create_app app) = [validate_request \<lparr>mw_app = app\<rparr>]"
    by (simp add: create_app_eq) (simp add: app_eq)
  then show ?thesis
    by (simp add: test_client_def wsgi_app_def split: sum.splits option.splits)
qed

lemma main_no_hook: "main req = dispatch_request app req"
  by (simp add: main_def wsgi_app_def) (simp add: app_eq)

lemma dispatch_post_submit:
  "dispatch_request app (post_submit f body) =
     \<lparr>response = success, executed = [''submit_data'']\<rparr>"
  "dispatch_request (create_app app) (post_submit f body) =
     \<lparr>response = success, executed = [''submit_data'']\<rparr>"
  by (simp_all add: dispatch_request_def create_app_eq app_eq post_submit_def submit_data_def
      success_def)

subsection \<open>Evaluating the properties on a given body\<close>

lemma contains_ci_sublist:
  "contains_ci tok body \<longleftrightarrow> sublist (map fold_case (codepoints tok)) (map fold_case body)"
  unfolding contains_ci_iff sublist_altdef' suffix_def
  by (auto simp: map_eq_append_conv)

lemma has_tag_Nil: "\<not> has_tag []"
  by (simp add: has_tag_def)

lemma has_tag_Cons:
  "has_tag (c # r) \<longleftrightarrow> (c = 60 \<and> (\<exists>d r'. r = d # r' \<and> d \<noteq> 62 \<and> 62 \<in> set r')) \<or> has_tag r"
proof
  assume "has_tag (c # r)"
  then obtain pre mid suf where *: "c # r = pre @ [60] @ mid @ [62] @ suf" "mid \<noteq> []" "62 \<notin> set mid"
    unfolding has_tag_def by blast
  show "(c = 60 \<and> (\<exists>d r'. r = d # r' \<and> d \<noteq> 62 \<and> 62 \<in> set r')) \<or> has_tag r"
  proof (cases pre)
    case Nil
    from * obtain d mid' where "mid = d # mid'" by (cases mid) auto
    with * Nil have "c = 60 \<and> r = d # (mid' @ [62] @ suf) \<and> d \<noteq> 62 \<and> 62 \<in> set (mid' @ [62] @ suf)"
      by auto
    then show ?thesis by blast
  next
    case (Cons c' pre')
    with * have "r = pre' @ [60] @ mid @ [62] @ suf" by simp
    with * have "has_tag r" unfolding has_tag_def by blast
    then show ?thesis ..
  qed
next
  assume "(c = 60 \<and> (\<exists>d r'. r = d # r' \<and> d \<noteq> 62 \<and> 62 \<in> set r')) \<or> has_tag r"
  then show "has_tag (c # r)"
  proof
    assume "c = 60 \<and> (\<exists>d r'. r = d # r' \<and> d \<noteq> 62 \<and> 62 \<in> set r')"
    then obtain d r' where d: "c = 60" "r = d # r'" "d \<noteq> 62" "62 \<in> set r'" by blast
    then obtain ys zs where "r' = ys @ 62 # zs" "62 \<notin> set ys"
      by (meson split_list_first)
    with d have "c # r = [] @ [60] @ (d # ys) @ [62] @ zs \<and> d # ys \<noteq> [] \<and> 62 \<notin> set (d # ys)"
      by simp
    then show ?thesis unfolding has_tag_def by blast
  next
    assume "has_tag r"
    then obtain pre mid suf where "r = pre @ [60] @ mid @ [62] @ suf" "mid \<noteq> []" "62 \<notin> set mid"
      unfolding has_tag_def by blast
    then have "c # r = (c # pre) @ [60] @ mid @ [62] @ suf \<and> mid \<noteq> [] \<and> 62 \<notin> set mid"
      by simp
    then show ?thesis unfolding has_tag_def by blast
  qed
qed

lemma brackets_harmless_no_tag: "brackets_harmless s \<Longrightarrow> \<not> has_tag s"
proof (induction s)
  case Nil
  then show ?case by (simp add: has_tag_Nil)
next
  case (Cons c r)
  then have r: "\<not> has_tag r" and c: "c = 60 \<longrightarrow> take 1 r = [62] \<or> 62 \<notin> set r"
    by simp_all
  have "\<not> (c = 60 \<and> (\<exists>d r'. r = d # r' \<and> d \<noteq> 62 \<and> 62 \<in> set r'))"
    using c by auto
  with r show ?case by (simp add: has_tag_Cons)
qed

lemma deleted_contains_DELETE: "contains_ci ''deleted'' body \<Longrightarrow> contains_ci ''DELETE'' body"
proof -
  assume "contains_ci ''deleted'' body"
  then obtain pre mid suf where *: "body = pre @ mid @ suf"
      "map fold_case mid = map fold_case (codepoints ''deleted'')"
    unfolding contains_ci_def by blast
  have "map fold_case (codepoints ''deleted'') = map fold_case (codepoints ''DELETE'') @ [100]"
    by (simp add: codepoints_def fold_case_def)
  with * obtain m1 m2 where m: "mid = m1 @ m2" "map fold_case m1 = map fold_case (codepoints ''DELETE'')"
    by (auto simp: map_eq_append_conv)
  with * have "body = pre @ m1 @ (m2 @ suf) \<and> map fold_case m1 = map fold_case (codepoints ''DELETE'')"
    by simp
  then show ?thesis unfolding contains_ci_def by blast
qed


subsection \<open>What the validator reads, and what the two applications answer\<close>

lemma request_data_post_submit:
  "request_data (post_submit f body) = (if f then Some [] else Some body)"
  by (simp add: request_data_def post_submit_def)

lemma validate_request_empty:
  "request_data req = Some [] \<Longrightarrow> validate_request self req = Inr None"
  by (simp add: validate_request_def sql_injection_patterns_def xss_patterns_def)

lemma validator_rejects_sql_token:
  assumes "request_data req = Some body" and "tok \<in> set sql_tokens" and "contains_ci tok body"
  shows "validate_request self req = Inl sql_injection_suspected"
  using assms by (auto simp: validate_request_cases)

lemma validator_rejects_tag:
  assumes "request_data req = Some body" and "has_tag body"
    and "\<forall>tok\<in>set sql_tokens. \<not> contains_ci tok body"
  shows "validate_request self req = Inl xss_suspected"
  using assms by (simp add: validate_request_cases)

text \<open>
  With the hook of \<^verbatim>\<open>create_app\<close> in place, a request the validator rejects never
  reaches a view, whatever its method and path.
\<close>

lemma test_client_guards_view:
  assumes "validate_request \<lparr>mw_app = app\<rparr> req = Inl e"
  shows "test_client req = http_error 500" and "executed (test_client req) = []"
  using assms by (simp_all add: test_client_cases http_error_def)

text \<open>
  The entry point answers every POST to \<^verbatim>\<open>/submit\<close> with the success payload, and so
  does the application of \<^verbatim>\<open>create_app\<close> when the body is sent as a form: the validator
  then reads an empty text.
\<close>

lemma main_serves_every_post:
  "main (post_submit f body) = \<lparr>response = success, executed = [''submit_data'']\<rparr>"
  by (simp add: main_no_hook dispatch_post_submit)

lemma test_client_serves_every_form_post:
  "test_client (post_submit True body) = \<lparr>response = success, executed = [''submit_data'']\<rparr>"
proof -
  have "validate_request \<lparr>mw_app = app\<rparr> (post_submit True body) = Inr None"
    by (rule validate_request_empty) (simp add: request_data_post_submit)
  then show ?thesis
    by (simp add: test_client_cases dispatch_post_submit)
qed

lemma test_client_rejected_post:
  assumes "validate_request \<lparr>mw_app = app\<rparr> (post_submit False body) = Inl e"
  shows "status_code (response (test_client (post_submit False body))) = 500"
  using test_client_guards_view(1) [OF assms] by (simp add: http_error_def)

text \<open>
  The case variants beyond ASCII are rejected like the ASCII spellings: long s for S,
  dotless and dotted i for I.
\<close>

lemma case_variants_beyond_ascii:
  "validate_request self (post_submit False (0x17F # codepoints ''elect'')) =
     Inl sql_injection_suspected"
  "validate_request self (post_submit False (0x131 # codepoints ''nsert'')) =
     Inl sql_injection_suspected"
  "validate_request self (post_submit False (0x130 # codepoints ''nsert'')) =
     Inl sql_injection_suspected"
proof -
  have c: "contains_ci ''SELECT'' (0x17F # codepoints ''elect'')"
    "contains_ci ''INSERT'' (0x131 # codepoints ''nsert'')"
    "contains_ci ''INSERT'' (0x130 # codepoints ''nsert'')"
    by (simp_all add: contains_ci_sublist codepoints_def fold_case_def sublist_code)
  have t: "''SELECT'' \<in> set sql_tokens" "''INSERT'' \<in> set sql_tokens"
    by (simp_all add: sql_tokens_def)
  show "validate_request self (post_submit False (0x17F # codepoints ''elect'')) =
     Inl sql_injection_suspected"
    by (rule validator_rejects_sql_token [OF _ t(1) c(1)]) (simp add: request_data_post_submit)
  show "validate_request self (post_submit False (0x131 # codepoints ''nsert'')) =
     Inl sql_injection_suspected"
    by (rule validator_rejects_sql_token [OF _ t(2) c(2)]) (simp add: request_data_post_submit)
  show "validate_request self (post_submit False (0x130 # codepoints ''nsert'')) =
     Inl sql_injection_suspected"
    by (rule validator_rejects_sql_token [OF _ t(2) c(3)]) (simp add: request_data_post_submit)
qed

section \<open>The claims\<close>

text \<open>
  C1. A body that contains none of the tokens SELECT, INSERT, UPDATE, DELETE, DROP,
  \<open>;\<close>, \<open>--\<close>, \<open>#\<close> (letter case ignored) and no tag-shaped substring is accepted by
  the validator, whatever the method, the path and the content type of the request, and a
  POST of it to \<^verbatim>\<open>/submit\<close> is answered with status 200 and the body
  \<^verbatim>\<open>{"message": "Data submitted successfully!"}\<close>, by the application that
  \<^verbatim>\<open>create_app\<close> configures and by the one the entry point serves.
\<close>

theorem clean_body_accepted:
  assumes "\<forall>tok\<in>set sql_tokens. \<not> contains_ci tok body" and "\<not> has_tag body"
  shows "validate_request self
           \<lparr>req_method = m, req_path = p, parsed_as_form = f, body_decoded = Some body\<rparr> = Inr None
       \<and> response (test_client (post_submit f body)) = success
       \<and> response (main (post_submit f body)) = success"
proof -
  have v: "validate_request s r = Inr None" if "body_decoded r = Some body" for s r
  proof (cases "parsed_as_form r")
    case True
    then show ?thesis by (simp add: validate_request_empty request_data_def)
  next
    case False
    with that have "request_data r = Some body" by (simp add: request_data_def)
    with assms show ?thesis by (simp add: validate_request_cases)
  qed
  have "validate_request \<lparr>mw_app = app\<rparr> (post_submit f body) = Inr None"
    by (rule v) (simp add: post_submit_def)
  then have "test_client (post_submit f body) =
      \<lparr>response = success, executed = [''submit_data'']\<rparr>"
    by (simp add: test_client_cases dispatch_post_submit)
  then show ?thesis by (simp add: v main_serves_every_post)
qed

theorem clean_body_accepted_witness:
  \<open>\<not> (\<exists>tok\<in>set sql_tokens. contains_ci tok (codepoints ''{"name": "John Doe"}''))
   \<and> \<not> has_tag (codepoints ''{"name": "John Doe"}'')
   \<and> validate_request \<lparr>mw_app = app\<rparr>
        \<lparr>req_method = ''POST'', req_path = ''/submit'', parsed_as_form = False,
         body_decoded = Some (codepoints ''{"name": "John Doe"}'')\<rparr> = Inr None
   \<and> response (test_client (post_submit False (codepoints ''{"name": "John Doe"}''))) =
        \<lparr>status_code = 200, payload = Json [(''message'', ''Data submitted successfully!'')]\<rparr>\<close>
proof -
  have h1: \<open>\<forall>tok\<in>set sql_tokens. \<not> contains_ci tok (codepoints ''{"name": "John Doe"}'')\<close>
    by (simp add: sql_tokens_def contains_ci_sublist codepoints_def fold_case_def sublist_code)
  have h2: \<open>\<not> has_tag (codepoints ''{"name": "John Doe"}'')\<close>
    by (simp add: codepoints_def has_tag_Cons has_tag_Nil)
  show ?thesis
    using clean_body_accepted [OF h1 h2, of "\<lparr>mw_app = app\<rparr>" "''POST''" "''/submit''" False]
      h1 h2
    by (simp add: success_def)
qed

text \<open>
  C2. A body with a SQL token is to be rejected by the validator as a suspected SQL
  injection, and a POST of it to \<^verbatim>\<open>/submit\<close> is to be answered with status 500. The
  validator does reject every text it reads that has a token
  (\<open>validator_rejects_sql_token\<close>), and the application of \<^verbatim>\<open>create_app\<close> answers 500
  to the body of the tests sent as JSON. The same body is answered with status 200 and
  the success payload by the entry point, which serves the application without the hook,
  and by the application of \<^verbatim>\<open>create_app\<close> when it is sent as a form, since
  \<^verbatim>\<open>request.data\<close> is empty then.
\<close>

theorem sql_token_body_answered_200:
  \<open>contains_ci ''DROP'' (codepoints ''{"name": "John Doe; DROP TABLE users;"}'')
   \<and> validate_request \<lparr>mw_app = app\<rparr>
        (post_submit False (codepoints ''{"name": "John Doe; DROP TABLE users;"}'')) =
       Inl sql_injection_suspected
   \<and> status_code (response (test_client
        (post_submit False (codepoints ''{"name": "John Doe; DROP TABLE users;"}'')))) = 500
   \<and> main (post_submit False (codepoints ''{"name": "John Doe; DROP TABLE users;"}'')) =
       \<lparr>response = \<lparr>status_code = 200,
                     payload = Json [(''message'', ''Data submitted successfully!'')]\<rparr>,
        executed = [''submit_data'']\<rparr>
   \<and> validate_request \<lparr>mw_app = app\<rparr>
        (post_submit True (codepoints ''{"name": "John Doe; DROP TABLE users;"}'')) = Inr None
   \<and> test_client (post_submit True (codepoints ''{"name": "John Doe; DROP TABLE users;"}'')) =
       \<lparr>response = \<lparr>status_code = 200,
                     payload = Json [(''message'', ''Data submitted successfully!'')]\<rparr>,
        executed = [''submit_data'']\<rparr>\<close>
proof -
  have c: \<open>contains_ci ''DROP'' (codepoints ''{"name": "John Doe; DROP TABLE users;"}'')\<close>
    by (simp add: contains_ci_sublist codepoints_def fold_case_def sublist_code)
  have t: "''DROP'' \<in> set sql_tokens"
    by (simp add: sql_tokens_def)
  have v: \<open>validate_request \<lparr>mw_app = app\<rparr>
        (post_submit False (codepoints ''{"name": "John Doe; DROP TABLE users;"}'')) =
       Inl sql_injection_suspected\<close>
    by (rule validator_rejects_sql_token [OF _ t c]) (simp add: request_data_post_submit)
  have w: \<open>validate_request \<lparr>mw_app = app\<rparr>
        (post_submit True (codepoints ''{"name": "John Doe; DROP TABLE users;"}'')) = Inr None\<close>
    by (rule validate_request_empty) (simp add: request_data_post_submit)
  show ?thesis
    using c v w test_client_rejected_post [OF v]
    by (simp add: main_serves_every_post test_client_serves_every_form_post success_def)
qed

text \<open>
  C3. A body with a tag-shaped substring and no SQL token is to be rejected by the
  validator as suspected XSS, and a POST of it to \<^verbatim>\<open>/submit\<close> is to be answered with
  status 500. The validator does reject every such text it reads
  (\<open>validator_rejects_tag\<close>), and the application of \<^verbatim>\<open>create_app\<close> answers 500 to the
  body of the tests sent as JSON. The same body is answered with status 200 and the
  success payload by the entry point and, sent as a form, by the application of
  \<^verbatim>\<open>create_app\<close>.
\<close>

theorem tag_body_answered_200:
  \<open>has_tag (codepoints ''{"name": "<script>alert(1)</script>"}'')
   \<and> \<not> (\<exists>tok\<in>set sql_tokens.
          contains_ci tok (codepoints ''{"name": "<script>alert(1)</script>"}''))
   \<and> validate_request \<lparr>mw_app = app\<rparr>
        (post_submit False (codepoints ''{"name": "<script>alert(1)</script>"}'')) =
       Inl xss_suspected
   \<and> status_code (response (test_client
        (post_submit False (codepoints ''{"name": "<script>alert(1)</script>"}'')))) = 500
   \<and> main (post_submit False (codepoints ''{"name": "<script>alert(1)</script>"}'')) =
       \<lparr>response = \<lparr>status_code = 200,
                     payload = Json [(''message'', ''Data submitted successfully!'')]\<rparr>,
        executed = [''submit_data'']\<rparr>
   \<and> validate_request \<lparr>mw_app = app\<rparr>
        (post_submit True (codepoints ''{"name": "<script>alert(1)</script>"}'')) = Inr None
   \<and> test_client (post_submit True (codepoints ''{"name": "<script>alert(1)</script>"}'')) =
       \<lparr>response = \<lparr>status_code = 200,
                     payload = Json [(''message'', ''Data submitted successfully!'')]\<rparr>,
        executed = [''submit_data'']\<rparr>\<close>
proof -
  have h: \<open>has_tag (codepoints ''{"name": "<script>alert(1)</script>"}'')\<close>
    by (simp add: codepoints_def has_tag_Cons has_tag_Nil)
  have n: \<open>\<forall>tok\<in>set sql_tokens.
      \<not> contains_ci tok (codepoints ''{"name": "<script>alert(1)</script>"}'')\<close>
    by (simp add: sql_tokens_def contains_ci_sublist codepoints_def fold_case_def sublist_code)
  have v: \<open>validate_request \<lparr>mw_app = app\<rparr>
        (post_submit False (codepoints ''{"name": "<script>alert(1)</script>"}'')) =
       Inl xss_suspected\<close>
    by (rule validator_rejects_tag [OF _ h n]) (simp add: request_data_post_submit)
  have w: \<open>validate_request \<lparr>mw_app = app\<rparr>
        (post_submit True (codepoints ''{"name": "<script>alert(1)</script>"}'')) = Inr None\<close>
    by (rule validate_request_empty) (simp add: request_data_post_submit)
  show ?thesis
    using h n v w test_client_rejected_post [OF v]
    by (simp add: main_serves_every_post test_client_serves_every_form_post success_def)
qed

text \<open>
  C4. A text that both patterns match is rejected as a suspected SQL injection, never as
  suspected XSS: the SQL pattern is searched first. The text is the one the validator
  reads, \<^verbatim>\<open>request.data\<close> decoded.
\<close>

theorem sql_reported_first:
  assumes "request_data req = Some body"
    and "search sql_injection_patterns body" and "search xss_patterns body"
  shows "validate_request self req = Inl sql_injection_suspected
       \<and> validate_request self req \<noteq> Inl xss_suspected"
  using assms
  by (simp add: validate_request_def sql_injection_suspected_def xss_suspected_def)

theorem sql_reported_first_witness:
  "request_data (post_submit False (codepoints ''<b>drop</b>'')) = Some (codepoints ''<b>drop</b>'')
   \<and> search sql_injection_patterns (codepoints ''<b>drop</b>'')
   \<and> search xss_patterns (codepoints ''<b>drop</b>'')
   \<and> validate_request \<lparr>mw_app = app\<rparr> (post_submit False (codepoints ''<b>drop</b>'')) =
        Inl (ValueError ''Potential SQL injection detected.'')"
proof -
  have h0: "request_data (post_submit False (codepoints ''<b>drop</b>'')) =
      Some (codepoints ''<b>drop</b>'')"
    by (simp add: request_data_post_submit)
  have "contains_ci ''DROP'' (codepoints ''<b>drop</b>'')"
    by (simp add: contains_ci_sublist codepoints_def fold_case_def sublist_code)
  then have h1: "search sql_injection_patterns (codepoints ''<b>drop</b>'')"
    by (auto simp: search_sql_iff sql_tokens_def)
  have "has_tag (codepoints ''<b>drop</b>'')"
    by (simp add: codepoints_def has_tag_Cons has_tag_Nil)
  then have h2: "search xss_patterns (codepoints ''<b>drop</b>'')"
    by (simp add: search_xss_iff)
  show ?thesis
    using sql_reported_first [OF h0 h1 h2, of "\<lparr>mw_app = app\<rparr>"] h0 h1 h2
    by (simp add: sql_injection_suspected_def)
qed

text \<open>
  C5. The XSS pattern is compiled without \<^verbatim>\<open>re.IGNORECASE\<close>, and for every text its
  search succeeds exactly when the text has a substring made of \<open><\<close>, then one or more
  characters other than \<open>>\<close>, then \<open>>\<close>. The validator rejects as suspected XSS
  exactly the texts it reads that have such a substring and that the SQL pattern,
  searched first, does not match.
\<close>

theorem xss_check_iff:
  "\<not> ignorecase xss_patterns
   \<and> (search xss_patterns body \<longleftrightarrow>
        (\<exists>pre mid suf. body = pre @ [60] @ mid @ [62] @ suf \<and> mid \<noteq> [] \<and> 62 \<notin> set mid))
   \<and> (request_data req = Some body \<longrightarrow>
        (validate_request self req = Inl xss_suspected \<longleftrightarrow>
         \<not> search sql_injection_patterns body \<and>
         (\<exists>pre mid suf. body = pre @ [60] @ mid @ [62] @ suf \<and> mid \<noteq> [] \<and> 62 \<notin> set mid)))"
proof -
  have "\<not> ignorecase xss_patterns"
    by (simp add: xss_patterns_def)
  moreover have s: "search xss_patterns body \<longleftrightarrow>
        (\<exists>pre mid suf. body = pre @ [60] @ mid @ [62] @ suf \<and> mid \<noteq> [] \<and> 62 \<notin> set mid)"
    using search_xss_iff [of body] by (simp add: has_tag_def)
  moreover have "validate_request self req = Inl xss_suspected \<longleftrightarrow>
        \<not> search sql_injection_patterns body \<and> search xss_patterns body"
    if "request_data req = Some body"
    using that by (simp add: validate_request_def xss_suspected_def)
  ultimately show ?thesis by simp
qed

theorem xss_check_iff_witness:
  "search xss_patterns (codepoints ''a <B> c'')
   \<and> \<not> search xss_patterns (codepoints ''a <> c > d'')
   \<and> request_data (post_submit False (codepoints ''a <B> c'')) = Some (codepoints ''a <B> c'')
   \<and> validate_request \<lparr>mw_app = app\<rparr> (post_submit False (codepoints ''a <B> c'')) =
       Inl xss_suspected"
proof -
  have "codepoints ''a <B> c'' =
          codepoints ''a '' @ [60] @ codepoints ''B'' @ [62] @ codepoints '' c''
        \<and> codepoints ''B'' \<noteq> [] \<and> 62 \<notin> set (codepoints ''B'')"
    by (simp add: codepoints_def)
  then have t: "\<exists>pre mid suf. codepoints ''a <B> c'' = pre @ [60] @ mid @ [62] @ suf
      \<and> mid \<noteq> [] \<and> 62 \<notin> set mid"
    by blast
  have n: "\<not> has_tag (codepoints ''a <> c > d'')"
    by (simp add: codepoints_def has_tag_Cons has_tag_Nil)
  have "\<forall>tok\<in>set sql_tokens. \<not> contains_ci tok (codepoints ''a <B> c'')"
    by (simp add: sql_tokens_def contains_ci_sublist codepoints_def fold_case_def sublist_code)
  then have q: "\<not> search sql_injection_patterns (codepoints ''a <B> c'')"
    by (simp add: search_sql_iff)
  have d: "request_data (post_submit False (codepoints ''a <B> c'')) =
      Some (codepoints ''a <B> c'')"
    by (simp add: request_data_post_submit)
  show ?thesis
    using t n q d
      xss_check_iff [of "codepoints ''a <B> c''"
        "post_submit False (codepoints ''a <B> c'')" "\<lparr>mw_app = app\<rparr>"]
      xss_check_iff [of "codepoints ''a <> c > d''"]
    by (simp add: has_tag_def)
qed

text \<open>
  C6. The empty body is accepted by the validator, and a POST of it to \<^verbatim>\<open>/submit\<close>
  is answered with status 200 and the success payload, whatever its content type.
\<close>

theorem empty_body_accepted:
  "validate_request self
     \<lparr>req_method = m, req_path = p, parsed_as_form = f, body_decoded = Some []\<rparr> = Inr None
   \<and> status_code (response (test_client (post_submit f []))) = 200
   \<and> payload (response (test_client (post_submit f []))) =
       Json [(''message'', ''Data submitted successfully!'')]
   \<and> status_code (response (main (post_submit f []))) = 200"
proof -
  have v: "validate_request s r = Inr None" if "body_decoded r = Some []" for s r
    by (rule validate_request_empty) (simp add: request_data_def that)
  have "validate_request \<lparr>mw_app = app\<rparr> (post_submit f []) = Inr None"
    by (rule v) (simp add: post_submit_def)
  then have "test_client (post_submit f []) =
      \<lparr>response = success, executed = [''submit_data'']\<rparr>"
    by (simp add: test_client_cases dispatch_post_submit)
  then show ?thesis by (simp add: v main_serves_every_post success_def)
qed

theorem empty_body_accepted_witness:
  "validate_request \<lparr>mw_app = app\<rparr>
     \<lparr>req_method = ''POST'', req_path = ''/submit'', parsed_as_form = False,
      body_decoded = Some []\<rparr> = Inr None
   \<and> status_code (response (test_client (post_submit False []))) = 200"
  using empty_body_accepted [of "\<lparr>mw_app = app\<rparr>" "''POST''" "''/submit''" False] by simp

text \<open>
  C7. A text that contains the word \<^verbatim>\<open>deleted\<close> in any letter case contains the token
  DELETE, letter case ignored, and the validator, reading it, rejects it as a suspected
  SQL injection.
\<close>

theorem deleted_rejected:
  assumes "request_data req = Some body" and "contains_ci ''deleted'' body"
  shows "contains_ci ''DELETE'' body
       \<and> validate_request self req = Inl sql_injection_suspected"
proof -
  have d: "contains_ci ''DELETE'' body"
    using assms(2) by (rule deleted_contains_DELETE)
  moreover have "''DELETE'' \<in> set sql_tokens"
    by (simp add: sql_tokens_def)
  ultimately have "\<exists>tok\<in>set sql_tokens. contains_ci tok body" by blast
  then show ?thesis using d assms(1) by (simp add: validate_request_cases)
qed

theorem deleted_rejected_witness:
  "request_data (post_submit False (codepoints ''file was DeLeTeD today'')) =
     Some (codepoints ''file was DeLeTeD today'')
   \<and> contains_ci ''deleted'' (codepoints ''file was DeLeTeD today'')
   \<and> validate_request \<lparr>mw_app = app\<rparr>
        \<lparr>req_method = ''POST'', req_path = ''/submit'', parsed_as_form = False,
         body_decoded = Some (codepoints ''file was DeLeTeD today'')\<rparr> =
        Inl (ValueError ''Potential SQL injection detected.'')"
proof -
  have h0: "request_data (post_submit False (codepoints ''file was DeLeTeD today'')) =
     Some (codepoints ''file was DeLeTeD today'')"
    by (simp add: request_data_post_submit)
  have h: "contains_ci ''deleted'' (codepoints ''file was DeLeTeD today'')"
    by (simp add: contains_ci_sublist codepoints_def fold_case_def sublist_code)
  show ?thesis
    using deleted_rejected [OF h0 h, of "\<lparr>mw_app = app\<rparr>"] h0 h
    by (simp add: sql_injection_suspected_def post_submit_def)
qed

text \<open>
  C8. The view \<^verbatim>\<open>submit_data\<close> is to run only for bodies the validator accepts. The
  application of \<^verbatim>\<open>create_app\<close> answers the body \<^verbatim>\<open>DROP TABLE users\<close>, which the
  validator rejects, with the internal server error and runs no view
  (\<open>test_client_guards_view\<close> has this for every request). The entry point of the module
  serves the application without the hook: there the same request runs
  \<^verbatim>\<open>submit_data\<close> and is answered with status 200 and the success payload.
\<close>

theorem entry_point_skips_validator:
  "validate_request \<lparr>mw_app = app\<rparr> (post_submit False (codepoints ''DROP TABLE users'')) =
     Inl sql_injection_suspected
   \<and> main (post_submit False (codepoints ''DROP TABLE users'')) =
       \<lparr>response = \<lparr>status_code = 200,
                     payload = Json [(''message'', ''Data submitted successfully!'')]\<rparr>,
        executed = [''submit_data'']\<rparr>
   \<and> test_client (post_submit False (codepoints ''DROP TABLE users'')) = http_error 500"
proof -
  have c: "contains_ci ''DROP'' (codepoints ''DROP TABLE users'')"
    by (simp add: contains_ci_sublist codepoints_def fold_case_def sublist_code)
  have t: "''DROP'' \<in> set sql_tokens"
    by (simp add: sql_tokens_def)
  have v: "validate_request \<lparr>mw_app = app\<rparr>
      (post_submit False (codepoints ''DROP TABLE users'')) = Inl sql_injection_suspected"
    by (rule validator_rejects_sql_token [OF _ t c]) (simp add: request_data_post_submit)
  then show ?thesis
    by (simp add: main_serves_every_post success_def test_client_cases)
qed


text \<open>
  C10. A text without SQL token in which every \<open><\<close> is followed at once by \<open>>\<close>
  (the empty pair \<open><>\<close>) or by no \<open>>\<close> at all is accepted by the validator that
  reads it: the XSS pattern needs a character other than \<open>>\<close> between the brackets. A
  \<open>>\<close> that no \<open><\<close> opens is harmless too.
\<close>

theorem empty_brackets_accepted:
  assumes "request_data req = Some body"
    and "\<forall>tok\<in>set sql_tokens. \<not> contains_ci tok body" and "brackets_harmless body"
  shows "\<not> search xss_patterns body \<and> validate_request self req = Inr None"
proof -
  have "\<not> has_tag body"
    using assms(3) by (rule brackets_harmless_no_tag)
  then show ?thesis
    using assms(1,2) by (simp add: validate_request_cases search_xss_iff)
qed

theorem empty_brackets_accepted_witness:
  "request_data (post_submit False (codepoints ''x <> y > z <'')) =
     Some (codepoints ''x <> y > z <'')
   \<and> \<not> (\<exists>tok\<in>set sql_tokens. contains_ci tok (codepoints ''x <> y > z <''))
   \<and> brackets_harmless (codepoints ''x <> y > z <'')
   \<and> validate_request \<lparr>mw_app = app\<rparr>
        \<lparr>req_method = ''POST'', req_path = ''/submit'', parsed_as_form = False,
         body_decoded = Some (codepoints ''x <> y > z <'')\<rparr> = Inr None"
proof -
  have h0: "request_data (post_submit False (codepoints ''x <> y > z <'')) =
     Some (codepoints ''x <> y > z <'')"
    by (simp add: request_data_post_submit)
  have h1: "\<forall>tok\<in>set sql_tokens. \<not> contains_ci tok (codepoints ''x <> y > z <'')"
    by (simp add: sql_tokens_def contains_ci_sublist codepoints_def fold_case_def sublist_code)
  have h2: "brackets_harmless (codepoints ''x <> y > z <'')"
    by (simp add: codepoints_def)
  show ?thesis
    using empty_brackets_accepted [OF h0 h1 h2, of "\<lparr>mw_app = app\<rparr>"] h0 h1 h2
    by (simp add: post_submit_def)
qed

end
